theory Spec2Isabelle
  imports Main "HOL-Library.Sublist"
begin

section \<open>JavaScript strings\<close>

text \<open>
  The model covers the strings whose UTF-16 code units lie in U+0000..U+00FF: a
  \<^typ>\<open>char\<close> is the code unit, \<^typ>\<open>string\<close> the sequence of them. The
  superscript two of \<open>o(n\<^sup>2)\<close> is the code unit \<open>0xB2\<close>.
\<close>

text \<open>
  \<open>String.prototype.toLowerCase\<close> on that range: A..Z and the Latin-1 capitals
  U+00C0..U+00DE (without the multiplication sign U+00D7) move up by 32.
\<close>

definition lower_char :: "char \<Rightarrow> char" where
  "lower_char c =
     (let n = (of_char c :: nat)
      in if (65 \<le> n \<and> n \<le> 90) \<or> (192 \<le> n \<and> n \<le> 222 \<and> n \<noteq> 215)
         then char_of (n + 32) else c)"

definition toLowerCase :: "string \<Rightarrow> string" where
  "toLowerCase s = map lower_char s"

text \<open>\<open>String.prototype.includes\<close>: the pattern occurs at some index of the text.\<close>

fun js_includes :: "string \<Rightarrow> string \<Rightarrow> bool" where
  "js_includes [] ps = (ps = [])"
| "js_includes (c # cs) ps = (prefix ps (c # cs) \<or> js_includes cs ps)"

text \<open>
  White space and line terminators of ECMAScript in the range of the model: TAB, LF, VT,
  FF, CR, SP and NBSP. \<open>String.prototype.trim\<close> strips them at both ends.
\<close>

definition is_js_space :: "char \<Rightarrow> bool" where
  "is_js_space c = ((of_char c :: nat) \<in> {9, 10, 11, 12, 13, 32, 160})"

definition trim :: "string \<Rightarrow> string" where
  "trim s = rev (dropWhile is_js_space (rev (dropWhile is_js_space s)))"

section \<open>Visual encoder\<close>

text \<open>
  The argument is a string or null (\<open>None\<close>); \<open>!complexity\<close> holds for null and for
  the empty string.
\<close>

definition sup2 :: char where
  "sup2 = CHR 0xB2"

definition getComplexityColor :: "string option \<Rightarrow> string" where
  "getComplexityColor complexity =
     (case complexity of
        None \<Rightarrow> ''#666''
      | Some s \<Rightarrow>
          if s = [] then ''#666''
          else let comp = toLowerCase s in
            if js_includes comp ''o(1)'' then ''#4caf50''
            else if js_includes comp ''o(log n)'' \<or> js_includes comp ''o(n)'' then ''#8bc34a''
            else if js_includes comp ''o(n log n)'' then ''#ffc107''
            else if js_includes comp (''o(n'' @ [sup2] @ '')'') \<or> js_includes comp ''o(n^2)''
              then ''#ff9800''
            else if js_includes comp ''o(2^n)'' \<or> js_includes comp ''o(n!)'' then ''#f44336''
            else ''#666'')"

definition getComplexityWidth :: "string option \<Rightarrow> string" where
  "getComplexityWidth complexity =
     (case complexity of
        None \<Rightarrow> ''50%''
      | Some s \<Rightarrow>
          if s = [] then ''50%''
          else let comp = toLowerCase s in
            if js_includes comp ''o(1)'' then ''10%''
            else if js_includes comp ''o(log n)'' then ''20%''
            else if js_includes comp ''o(n)'' then ''30%''
            else if js_includes comp ''o(n log n)'' then ''50%''
            else if js_includes comp (''o(n'' @ [sup2] @ '')'') \<or> js_includes comp ''o(n^2)''
              then ''70%''
            else if js_includes comp ''o(2^n)'' \<or> js_includes comp ''o(n!)'' then ''90%''
            else ''50%'')"

text \<open>
  The number a CSS percentage such as \<open>30%\<close> stands for: its decimal digits, read up
  to the percent sign. It is how the bar widths are compared.
\<close>

definition digit_val :: "char \<Rightarrow> nat" where
  "digit_val c = of_char c - 48"

definition percent_value :: "string \<Rightarrow> nat" where
  "percent_value w =
     foldl (\<lambda>acc c. 10 * acc + digit_val c) 0 (takeWhile (\<lambda>c. c \<noteq> CHR ''%'') w)"

section \<open>Text formatter\<close>

text \<open>
  A global \<open>replace\<close> scans the text from left to right; where the regular expression
  matches, the match becomes a span holding the captured group, elsewhere the code unit is
  kept, and the scan goes on behind the match.
\<close>

datatype seg = Lit char | Span string

fun render :: "string \<Rightarrow> string \<Rightarrow> seg \<Rightarrow> string" where
  "render l r (Lit c) = [c]"
| "render l r (Span m) = l @ m @ r"

definition nl :: char where
  "nl = CHR 0x0A"

text \<open>The dot of a regular expression matches every code unit but LF and CR.\<close>

definition is_line_terminator :: "char \<Rightarrow> bool" where
  "is_line_terminator c = (c = CHR 0x0A \<or> c = CHR 0x0D)"

text \<open>
  \<open>/\*\*(.*?)\*\*/g\<close>. After the opening pair the lazy group takes the fewest code units
  such that the closing pair follows: it tries the pair first and only then one more dot.
\<close>

fun bold_body :: "string \<Rightarrow> string option" where
  "bold_body [] = None"
| "bold_body (c # cs) =
     (if prefix ''**'' (c # cs) then Some []
      else if is_line_terminator c then None
      else map_option ((#) c) (bold_body cs))"

fun bold_scan :: "string \<Rightarrow> seg list" where
  "bold_scan [] = []"
| "bold_scan (c # cs) =
     (if prefix ''**'' (c # cs) then
        (case bold_body (tl cs) of
           Some m \<Rightarrow> Span m # bold_scan (drop (length m + 3) cs)
         | None \<Rightarrow> Lit c # bold_scan cs)
      else Lit c # bold_scan cs)"

definition replace_bold :: "string \<Rightarrow> string" where
  "replace_bold t = concat (map (render ''<strong>'' ''</strong>'') (bold_scan t))"

text \<open>
  \<open>/(?<!\*)\*(?!\*)(.*?)(?<!\*)\*(?!\*)/g\<close>. A delimiter is an asterisk with no
  asterisk before it and none behind it; \<open>p\<close> is the code unit before the position, if
  there is one.
\<close>

fun lone_star :: "char option \<Rightarrow> string \<Rightarrow> bool" where
  "lone_star p [] = False"
| "lone_star p (c # cs) = (p \<noteq> Some (CHR ''*'') \<and> c = CHR ''*'' \<and> \<not> prefix ''*'' cs)"

fun italic_body :: "char \<Rightarrow> string \<Rightarrow> string option" where
  "italic_body p [] = None"
| "italic_body p (c # cs) =
     (if lone_star (Some p) (c # cs) then Some []
      else if is_line_terminator c then None
      else map_option ((#) c) (italic_body c cs))"

fun italic_scan :: "char option \<Rightarrow> string \<Rightarrow> seg list" where
  "italic_scan p [] = []"
| "italic_scan p (c # cs) =
     (if lone_star p (c # cs) then
        (case italic_body c cs of
           Some m \<Rightarrow> Span m # italic_scan (Some (CHR ''*'')) (drop (length m + 1) cs)
         | None \<Rightarrow> Lit c # italic_scan (Some c) cs)
      else Lit c # italic_scan (Some c) cs)"

definition replace_italic :: "string \<Rightarrow> string" where
  "replace_italic t = concat (map (render ''<em>'' ''</em>'') (italic_scan None t))"

text \<open>
  The inline code expression: a backtick, one or more code units that are not a backtick
  (line breaks among them), a backtick. The greedy class runs up to the next backtick or
  to the end of the text, and giving code units back never helps.
\<close>

definition backtick :: char where
  "backtick = CHR 0x60"

definition code_body :: "string \<Rightarrow> string option" where
  "code_body s =
     (let m = takeWhile (\<lambda>c. c \<noteq> backtick) s
      in if m \<noteq> [] \<and> length m < length s then Some m else None)"

fun code_scan :: "string \<Rightarrow> seg list" where
  "code_scan [] = []"
| "code_scan (c # cs) =
     (if c = backtick then
        (case code_body cs of
           Some m \<Rightarrow> Span m # code_scan (drop (length m + 1) cs)
         | None \<Rightarrow> Lit c # code_scan cs)
      else Lit c # code_scan cs)"

definition code_open :: string where
  "code_open = ''<code class='' @ [CHR 0x22] @ ''inline-code'' @ [CHR 0x22] @ ''>''"

definition replace_code :: "string \<Rightarrow> string" where
  "replace_code t = concat (map (render code_open ''</code>'') (code_scan t))"

text \<open>
  \<open>split(/\n\n+/)\<close>: the pieces between the runs of two or more line feeds; a run at
  either end leaves an empty piece there.
\<close>

function split_paragraphs :: "string \<Rightarrow> string list" where
  "split_paragraphs [] = [[]]"
| "split_paragraphs (c # cs) =
     (if c = nl \<and> prefix [nl] cs
      then [] # split_paragraphs (dropWhile (\<lambda>d. d = nl) cs)
      else (case split_paragraphs cs of
              p # ps \<Rightarrow> (c # p) # ps
            | [] \<Rightarrow> [[c]]))"
  by pat_completeness auto
termination
  by (relation "measure length") (auto simp: less_Suc_eq_le length_dropWhile_le)

definition replace_newlines :: "string \<Rightarrow> string" where
  "replace_newlines para = concat (map (\<lambda>c. if c = nl then ''<br>'' else [c]) para)"

definition explanation_paragraphs :: "string \<Rightarrow> string list" where
  "explanation_paragraphs t =
     map (\<lambda>para. ''<p>'' @ replace_newlines para @ ''</p>'')
       (filter (\<lambda>para. length para > 0)
         (map trim
           (split_paragraphs (replace_code (replace_italic (replace_bold t))))))"

text \<open>\<open>!text\<close> holds for null and for the empty string.\<close>

definition formatExplanation :: "string option \<Rightarrow> string" where
  "formatExplanation text =
     (case text of
        None \<Rightarrow> []
      | Some t \<Rightarrow> if t = [] then [] else concat (explanation_paragraphs t))"

section \<open>Values of a response body\<close>

text \<open>
  What \<open>JSON.parse\<close> builds. A number is held as the text \<open>ToString\<close> prints for
  it, which is all the program reads of a number: that text, and whether it is zero.
  An object is its list of keys and values. A value that may be missing is a
  \<open>json option\<close>, \<open>None\<close> being \<open>undefined\<close> and \<open>Some JNull\<close> being null.
\<close>

datatype json =
    JNull
  | JBool bool
  | JNum string
  | JStr string
  | JArr "json list"
  | JObj "(string \<times> json) list"

type_synonym jsval = "json option"

definition nullish :: "jsval \<Rightarrow> bool" where
  "nullish v = (v = None \<or> v = Some JNull)"

fun truthy :: "jsval \<Rightarrow> bool" where
  "truthy None = False"
| "truthy (Some JNull) = False"
| "truthy (Some (JBool b)) = b"
| "truthy (Some (JNum n)) = (n \<noteq> ''0'')"
| "truthy (Some (JStr t)) = (t \<noteq> [])"
| "truthy (Some (JArr xs)) = True"
| "truthy (Some (JObj kvs)) = True"

fun join :: "string \<Rightarrow> string list \<Rightarrow> string" where
  "join sep [] = []"
| "join sep [x] = x"
| "join sep (x # y # ys) = x @ sep @ join sep (y # ys)"

text \<open>\<open>ToString\<close>; an array joins its elements with commas, null among them as nothing.\<close>

fun to_string :: "json \<Rightarrow> string" where
  "to_string JNull = ''null''"
| "to_string (JBool b) = (if b then ''true'' else ''false'')"
| "to_string (JNum n) = n"
| "to_string (JStr t) = t"
| "to_string (JArr xs) = join '','' (map (\<lambda>x. if x = JNull then [] else to_string x) xs)"
| "to_string (JObj kvs) = ''[object Object]''"

text \<open>
  Reading one of the properties \<open>error\<close>, \<open>success\<close>, \<open>data\<close>, \<open>mode\<close>. On null the read
  raises a TypeError (\<open>Inl\<close> its message, in the wording of V8); an object gives the
  value under the key or \<open>undefined\<close>; every other value has no such property.
\<close>

definition null_read_message :: "string \<Rightarrow> string" where
  "null_read_message k = ''Cannot read properties of null (reading '' @ [CHR 0x27] @ k @ [CHR 0x27] @ '')''"

fun get_prop :: "json \<Rightarrow> string \<Rightarrow> string + jsval" where
  "get_prop JNull k = Inl (null_read_message k)"
| "get_prop (JObj kvs) k = Inr (map_of kvs k)"
| "get_prop v k = Inr None"

text \<open>\<open>new Error(v || fallback).message\<close>.\<close>

definition error_message :: "jsval \<Rightarrow> string \<Rightarrow> string" where
  "error_message v fallback =
     (case v of
        None \<Rightarrow> fallback
      | Some x \<Rightarrow> if truthy v then to_string x else fallback)"

section \<open>Request orchestrator\<close>

record app_state =
  code :: string
  language :: string
  loading :: bool
  loadingMode :: "string option"
  result :: jsval
  resultMode :: jsval
  error :: "string option"

text \<open>The state hooks at their initial values; null is \<open>None\<close> for the two string fields.\<close>

definition initial_state :: app_state where
  "initial_state =
     \<lparr>code = [], language = ''javascript'', loading = False, loadingMode = None,
      result = Some JNull, resultMode = Some JNull, error = None\<rparr>"

definition API_URL :: "string option \<Rightarrow> string" where
  "API_URL env =
     (case env of
        None \<Rightarrow> ''https://ai-code-editor-4ia9.onrender.com''
      | Some u \<Rightarrow> if u = [] then ''https://ai-code-editor-4ia9.onrender.com'' else u)"

definition getApiUrl :: "string option \<Rightarrow> string \<Rightarrow> string" where
  "getApiUrl env endpoint =
     (let baseUrl = rev (dropWhile (\<lambda>c. c = CHR ''/'') (rev (API_URL env)));
          path = (if prefix ''/'' endpoint then endpoint else ''/'' @ endpoint)
      in baseUrl @ path)"

record request =
  req_url :: string
  req_code :: string
  req_language :: string
  req_mode :: string

text \<open>
  How the exchange with the service ends: \<open>fetch\<close> rejects with an error of some
  message, or a response arrives with its \<open>ok\<close> flag and a body; \<open>response.json()\<close>
  rejects with an error of some message (a body that is no JSON), or gives the parsed
  value.
\<close>

datatype body = BodyError string | Parsed json

datatype fetch_outcome = Rejected string | Response bool body

text \<open>
  The \<open>try\<close> block from the arrival of the outcome on: the state it leaves and the
  message of the error it throws, if it throws.
\<close>

definition throw_from :: "app_state \<Rightarrow> json \<Rightarrow> string \<Rightarrow> app_state \<times> string option" where
  "throw_from s d fallback =
     (case get_prop d ''error'' of
        Inl tmsg \<Rightarrow> (s, Some tmsg)
      | Inr e \<Rightarrow> (s, Some (error_message e fallback)))"

definition try_block :: "app_state \<Rightarrow> fetch_outcome \<Rightarrow> app_state \<times> string option" where
  "try_block s out =
     (case out of
        Rejected msg \<Rightarrow> (s, Some msg)
      | Response ok b \<Rightarrow>
          (case b of
             BodyError msg \<Rightarrow> (s, Some msg)
           | Parsed d \<Rightarrow>
               if \<not> ok then throw_from s d ''Failed to process code''
               else (case get_prop d ''success'' of
                       Inl tmsg \<Rightarrow> (s, Some tmsg)
                     | Inr ok_flag \<Rightarrow>
                         if truthy ok_flag then
                           (case get_prop d ''data'' of
                              Inl tmsg \<Rightarrow> (s, Some tmsg)
                            | Inr v \<Rightarrow>
                                (case get_prop d ''mode'' of
                                   Inl tmsg \<Rightarrow> (s\<lparr>result := v\<rparr>, Some tmsg)
                                 | Inr m \<Rightarrow> (s\<lparr>result := v, resultMode := m\<rparr>, None)))
                         else throw_from s d ''Processing failed'')))"

text \<open>The one request of a run: the endpoint and the body \<open>{code, language, mode}\<close>.\<close>

definition review_request :: "string option \<Rightarrow> string \<Rightarrow> app_state \<Rightarrow> request" where
  "review_request env mode s =
     \<lparr>req_url = getApiUrl env ''/api/review'', req_code = code s,
      req_language = language s, req_mode = mode\<rparr>"

text \<open>
  \<open>handleAction\<close>, with the service as a function from the request to the outcome of the
  exchange. It returns the state it leaves and the requests it has sent.
\<close>

definition handleAction ::
  "string option \<Rightarrow> (request \<Rightarrow> fetch_outcome) \<Rightarrow> string \<Rightarrow> app_state \<Rightarrow> app_state \<times> request list"
where
  "handleAction env service mode s =
     (if trim (code s) = [] then (s\<lparr>error := Some ''Please enter some code''\<rparr>, [])
      else
        let s1 = s\<lparr>loading := True, loadingMode := Some mode, error := None,
                   result := Some JNull, resultMode := Some JNull\<rparr>;
            req = review_request env mode s;
            (s2, thrown) = try_block s1 (service req);
            s3 = (case thrown of None \<Rightarrow> s2 | Some msg \<Rightarrow> s2\<lparr>error := Some msg\<rparr>)
        in (s3\<lparr>loading := False, loadingMode := None\<rparr>, [req]))"

definition handleClear :: "app_state \<Rightarrow> app_state" where
  "handleClear s = s\<lparr>code := [], result := Some JNull, resultMode := Some JNull, error := None\<rparr>"

text \<open>
  What happens to the component: the text area or the language selector changes, an
  action button is pressed and the service answers, the clear button is pressed.
\<close>

datatype event =
    SetCode string
  | SetLanguage string
  | Action string fetch_outcome
  | Clear

fun step :: "string option \<Rightarrow> app_state \<Rightarrow> event \<Rightarrow> app_state" where
  "step env s (SetCode c) = s\<lparr>code := c\<rparr>"
| "step env s (SetLanguage l) = s\<lparr>language := l\<rparr>"
| "step env s (Action mode out) = fst (handleAction env (\<lambda>r. out) mode s)"
| "step env s Clear = handleClear s"

text \<open>At most one of \<open>result\<close> and \<open>error\<close> is set.\<close>

definition exclusive :: "app_state \<Rightarrow> bool" where
  "exclusive s = (nullish (result s) \<or> error s = None)"

definition run_events :: "string option \<Rightarrow> event list \<Rightarrow> app_state" where
  "run_events env evs = foldl (step env) initial_state evs"

section \<open>Example exchanges\<close>

text \<open>Replies of the service and inputs of the user, for the concrete runs below.\<close>

definition ok_review :: fetch_outcome where
  "ok_review =
     Response True (Parsed (JObj [(''success'', JBool True), (''mode'', JStr ''review''),
       (''data'', JObj [(''summary'', JStr ''ok''), (''rating'', JNum ''8'')])]))"

definition fix_reply :: fetch_outcome where
  "fix_reply =
     Response True (Parsed (JObj [(''success'', JBool True), (''mode'', JStr ''fix''),
       (''data'', JObj [(''fixedCode'', JStr ''y=1'')])]))"

definition no_mode_reply :: fetch_outcome where
  "no_mode_reply =
     Response True (Parsed (JObj [(''success'', JBool True),
       (''data'', JObj [(''summary'', JStr ''ok''), (''rating'', JNum ''8'')])]))"

definition empty_data_reply :: fetch_outcome where
  "empty_data_reply =
     Response True (Parsed (JObj [(''success'', JBool True), (''mode'', JStr ''review''),
       (''data'', JObj [])]))"

definition blank_code :: string where
  "blank_code = [CHR '' '', CHR 0x09, CHR 0x0A]"

definition typed :: "string \<Rightarrow> app_state" where
  "typed c = initial_state\<lparr>code := c\<rparr>"

definition complexity_classes :: "string list" where
  "complexity_classes =
     [''O(1)'', ''O(log n)'', ''O(n)'', ''O(n log n)'', ''O(n'' @ [sup2] @ '')'', ''O(2^n)'']"

section \<open>Facts on strings\<close>

lemma includes_sublist: "js_includes s ps \<longleftrightarrow> sublist ps s"
  by (induction s) (simp_all add: sublist_Cons_right)

lemma trim_x: "trim ''x=1'' = ''x=1''"
  by (simp add: trim_def is_js_space_def)

lemma trim_blank: "trim blank_code = []"
  by (simp add: trim_def is_js_space_def blank_code_def)

section \<open>Facts on the orchestrator\<close>

lemma try_block_cases:
  "try_block s out = (s', thrown) \<Longrightarrow>
     (thrown \<noteq> None \<and> s' = s) \<or>
     (thrown = None \<and> (\<exists>kvs. out = Response True (Parsed (JObj kvs)) \<and> truthy (map_of kvs ''success'')
         \<and> s' = s\<lparr>result := map_of kvs ''data'', resultMode := map_of kvs ''mode''\<rparr>))"
  unfolding try_block_def throw_from_def
  by (cases out; cases "case out of Response ok b \<Rightarrow> b"; cases "case out of Response ok (Parsed d) \<Rightarrow> d")
     (auto split: if_splits sum.splits)

lemma try_block_success:
  "truthy (map_of kvs ''success'') \<Longrightarrow>
   try_block s (Response True (Parsed (JObj kvs))) =
     (s\<lparr>result := map_of kvs ''data'', resultMode := map_of kvs ''mode''\<rparr>, None)"
  by (simp add: try_block_def)

lemma handleAction_rejected:
  "trim (code s) = [] \<Longrightarrow>
   handleAction env service mode s = (s\<lparr>error := Some ''Please enter some code''\<rparr>, [])"
  by (simp add: handleAction_def)

lemma handleAction_accepted:
  fixes env service mode s
  assumes "trim (code s) \<noteq> []"
  defines "s' \<equiv> fst (handleAction env service mode s)"
  shows "loading s' = False \<and> loadingMode s' = None \<and> code s' = code s \<and> language s' = language s \<and>
         ((\<exists>msg. error s' = Some msg \<and> result s' = Some JNull \<and> resultMode s' = Some JNull) \<or>
          (\<exists>kvs. service (review_request env mode s) = Response True (Parsed (JObj kvs)) \<and>
             truthy (map_of kvs ''success'') \<and> error s' = None \<and>
             result s' = map_of kvs ''data'' \<and> resultMode s' = map_of kvs ''mode''))"
proof -
  let ?s1 = "s\<lparr>loading := True, loadingMode := Some mode, error := None,
                 result := Some JNull, resultMode := Some JNull\<rparr>"
  obtain s2 thrown where t: "try_block ?s1 (service (review_request env mode s)) = (s2, thrown)"
    by (cases "try_block ?s1 (service (review_request env mode s))")
  have h: "s' =
      (case thrown of None \<Rightarrow> s2 | Some msg \<Rightarrow> s2\<lparr>error := Some msg\<rparr>)\<lparr>loading := False, loadingMode := None\<rparr>"
    using assms t by (simp add: handleAction_def Let_def)
  from try_block_cases [OF t] show ?thesis
  proof
    assume "thrown \<noteq> None \<and> s2 = ?s1"
    then obtain msg where "thrown = Some msg" "s2 = ?s1" by auto
    with h show ?thesis by simp
  next
    assume "thrown = None \<and> (\<exists>kvs. service (review_request env mode s) = Response True (Parsed (JObj kvs)) \<and>
       truthy (map_of kvs ''success'') \<and>
       s2 = ?s1\<lparr>result := map_of kvs ''data'', resultMode := map_of kvs ''mode''\<rparr>)"
    with h show ?thesis by auto
  qed
qed

lemma handleAction_sent:
  "trim (code s) \<noteq> [] \<Longrightarrow> snd (handleAction env service mode s) = [review_request env mode s]"
  by (simp add: handleAction_def Let_def split: prod.splits)

lemma handleAction_exclusive:
  "trim (code s) \<noteq> [] \<Longrightarrow> exclusive (fst (handleAction env service mode s))"
  using handleAction_accepted [of s env service mode]
  by (auto simp: exclusive_def nullish_def)

lemma step_invariant:
  assumes "exclusive s \<or> error s = Some ''Please enter some code''"
  shows "exclusive (step env s e) \<or> error (step env s e) = Some ''Please enter some code''"
proof (cases e)
  case (Action mode out)
  show ?thesis
  proof (cases "trim (code s) = []")
    case True
    then show ?thesis using Action by (simp add: handleAction_rejected)
  next
    case False
    then show ?thesis using Action handleAction_exclusive [of s env "\<lambda>r. out" mode] by simp
  qed
qed (use assms in \<open>auto simp: exclusive_def handleClear_def nullish_def\<close>)

lemma run_events_invariant:
  "exclusive (run_events env evs) \<or> error (run_events env evs) = Some ''Please enter some code''"
proof (induction evs rule: rev_induct)
  case Nil
  show ?case by (simp add: run_events_def initial_state_def exclusive_def)
next
  case (snoc e evs)
  then show ?case using step_invariant [of "run_events env evs" env e]
    by (simp add: run_events_def)
qed

section \<open>Facts on the span passes\<close>

lemma render_lits: "concat (map (render l r) (map Lit t)) = t"
  by (induction t) simp_all

lemma nl_line_terminator: "is_line_terminator nl"
  by (simp add: is_line_terminator_def nl_def)

subsection \<open>The bold pass\<close>

lemma bold_body_no_break: "bold_body t = Some m \<Longrightarrow> nl \<notin> set m"
proof (induction t arbitrary: m)
  case Nil
  then show ?case by simp
next
  case (Cons c cs)
  show ?case
  proof (cases "prefix ''**'' (c # cs)")
    case True
    with Cons.prems show ?thesis by (auto split: if_splits)
  next
    case False
    with Cons.prems obtain m' where m': "\<not> is_line_terminator c" "bold_body cs = Some m'" "m = c # m'"
      by (auto split: if_splits)
    from m'(1) have "c \<noteq> nl" using nl_line_terminator by auto
    with Cons.IH [OF m'(2)] m'(3) show ?thesis by simp
  qed
qed

lemma bold_scan_span: "Span m \<in> set (bold_scan t) \<Longrightarrow> \<exists>u. bold_body u = Some m"
  by (induction t rule: bold_scan.induct) (auto split: if_splits option.splits)

lemma bold_body_starless: "CHR ''*'' \<notin> set t \<Longrightarrow> bold_body t = None"
  by (induction t) auto

lemma bold_body_break:
  "nl \<in> set c \<Longrightarrow> CHR ''*'' \<notin> set c \<Longrightarrow> bold_body (c @ r) = None"
  by (induction c) (auto simp: nl_line_terminator)

lemma bold_scan_starless: "CHR ''*'' \<notin> set xs \<Longrightarrow> bold_scan (xs @ ys) = map Lit xs @ bold_scan ys"
  by (induction xs) auto

lemma bold_scan_single: "\<not> prefix ''*'' ys \<Longrightarrow> bold_scan (CHR ''*'' # ys) = Lit (CHR ''*'') # bold_scan ys"
  by (cases ys) auto

lemma starless_prefix: "CHR ''*'' \<notin> set xs \<Longrightarrow> xs \<noteq> [] \<Longrightarrow> \<not> prefix ''*'' (xs @ ys)"
  by (cases xs) auto

lemma starless_prefix': "CHR ''*'' \<notin> set xs \<Longrightarrow> \<not> prefix ''*'' xs"
  by (cases xs) auto

lemma bold_scan_pair:
  assumes "nl \<in> set c" "CHR ''*'' \<notin> set c" "CHR ''*'' \<notin> set post"
  shows "bold_scan (''**'' @ c @ ''**'' @ post) = map Lit (''**'' @ c @ ''**'' @ post)"
proof -
  have c: "c \<noteq> []" using assms(1) by auto
  have 1: "bold_scan (''**'' @ c @ ''**'' @ post) = Lit (CHR ''*'') # bold_scan (CHR ''*'' # c @ ''**'' @ post)"
    using bold_body_break [OF assms(1,2)] by simp
  have 2: "bold_scan (CHR ''*'' # c @ ''**'' @ post) = Lit (CHR ''*'') # bold_scan (c @ ''**'' @ post)"
    using starless_prefix [OF assms(2) c] by (rule bold_scan_single)
  have 3: "bold_scan (c @ ''**'' @ post) = map Lit c @ bold_scan (''**'' @ post)"
    using assms(2) by (rule bold_scan_starless)
  have 4: "bold_scan (''**'' @ post) = Lit (CHR ''*'') # bold_scan (CHR ''*'' # post)"
    using bold_body_starless [OF assms(3)] by simp
  have 5: "bold_scan (CHR ''*'' # post) = Lit (CHR ''*'') # bold_scan post"
    using starless_prefix' [OF assms(3)] by (rule bold_scan_single)
  have 6: "bold_scan post = map Lit post"
    using bold_scan_starless [OF assms(3), of "[]"] by simp
  show ?thesis unfolding 1 2 3 4 5 6 by simp
qed

lemma replace_bold_pair:
  assumes "nl \<in> set c" "CHR ''*'' \<notin> set c" "CHR ''*'' \<notin> set pre" "CHR ''*'' \<notin> set post"
  shows "replace_bold (pre @ ''**'' @ c @ ''**'' @ post) = pre @ ''**'' @ c @ ''**'' @ post"
proof -
  have "bold_scan (pre @ ''**'' @ c @ ''**'' @ post) = map Lit (pre @ ''**'' @ c @ ''**'' @ post)"
    using bold_scan_starless [OF assms(3)] bold_scan_pair [OF assms(1,2,4)] by simp
  then show ?thesis unfolding replace_bold_def by (simp only: render_lits)
qed

lemma replace_bold_single:
  assumes "c \<noteq> []" "CHR ''*'' \<notin> set c" "CHR ''*'' \<notin> set pre" "CHR ''*'' \<notin> set post"
  shows "replace_bold (pre @ ''*'' @ c @ ''*'' @ post) = pre @ ''*'' @ c @ ''*'' @ post"
proof -
  have 2: "bold_scan (CHR ''*'' # c @ ''*'' @ post) = Lit (CHR ''*'') # bold_scan (c @ ''*'' @ post)"
    using starless_prefix [OF assms(2,1)] by (rule bold_scan_single)
  have 3: "bold_scan (c @ ''*'' @ post) = map Lit c @ bold_scan (''*'' @ post)"
    using assms(2) by (rule bold_scan_starless)
  have 5: "bold_scan (CHR ''*'' # post) = Lit (CHR ''*'') # bold_scan post"
    using starless_prefix' [OF assms(4)] by (rule bold_scan_single)
  have 6: "bold_scan post = map Lit post"
    using bold_scan_starless [OF assms(4), of "[]"] by simp
  have "bold_scan (pre @ ''*'' @ c @ ''*'' @ post) = map Lit (pre @ ''*'' @ c @ ''*'' @ post)"
    using bold_scan_starless [OF assms(3)] 2 3 5 6 by simp
  then show ?thesis unfolding replace_bold_def by (simp only: render_lits)
qed

subsection \<open>The italic pass\<close>

lemma italic_body_no_break: "italic_body p t = Some m \<Longrightarrow> nl \<notin> set m"
proof (induction t arbitrary: p m)
  case Nil
  then show ?case by simp
next
  case (Cons c cs)
  show ?case
  proof (cases "lone_star (Some p) (c # cs)")
    case True
    with Cons.prems show ?thesis by (auto split: if_splits)
  next
    case False
    with Cons.prems obtain m' where m': "\<not> is_line_terminator c" "italic_body c cs = Some m'" "m = c # m'"
      by (auto split: if_splits)
    from m'(1) have "c \<noteq> nl" using nl_line_terminator by auto
    with Cons.IH [OF m'(2)] m'(3) show ?thesis by simp
  qed
qed

lemma italic_scan_span: "Span m \<in> set (italic_scan p t) \<Longrightarrow> \<exists>q u. italic_body q u = Some m"
  by (induction p t rule: italic_scan.induct) (auto split: if_splits option.splits)

lemma italic_body_starless: "CHR ''*'' \<notin> set t \<Longrightarrow> italic_body p t = None"
  by (induction t arbitrary: p) auto

lemma italic_body_break:
  "nl \<in> set c \<Longrightarrow> CHR ''*'' \<notin> set c \<Longrightarrow> italic_body p (c @ r) = None"
  by (induction c arbitrary: p) (auto simp: nl_line_terminator)

lemma italic_scan_starless:
  "CHR ''*'' \<notin> set xs \<Longrightarrow>
   italic_scan p (xs @ ys) = map Lit xs @ italic_scan (if xs = [] then p else Some (last xs)) ys"
  by (induction xs arbitrary: p) auto

lemma italic_scan_starless_all: "CHR ''*'' \<notin> set xs \<Longrightarrow> italic_scan p xs = map Lit xs"
  using italic_scan_starless [of xs p "[]"] by simp

lemma italic_scan_double:
  "italic_scan p (CHR ''*'' # CHR ''*'' # ys) =
     Lit (CHR ''*'') # Lit (CHR ''*'') # italic_scan (Some (CHR ''*'')) ys"
  by simp

lemma italic_scan_unclosed:
  "italic_body (CHR ''*'') ys = None \<Longrightarrow>
   italic_scan p (CHR ''*'' # ys) = Lit (CHR ''*'') # italic_scan (Some (CHR ''*'')) ys"
  by simp

lemma replace_italic_pair:
  assumes "nl \<in> set c" "CHR ''*'' \<notin> set c" "CHR ''*'' \<notin> set pre" "CHR ''*'' \<notin> set post"
  shows "replace_italic (pre @ ''*'' @ c @ ''*'' @ post) = pre @ ''*'' @ c @ ''*'' @ post"
proof -
  have 1: "italic_scan q (CHR ''*'' # c @ ''*'' @ post) =
      Lit (CHR ''*'') # italic_scan (Some (CHR ''*'')) (c @ ''*'' @ post)" for q
    using italic_body_break [OF assms(1,2)] by (rule italic_scan_unclosed)
  have 2: "italic_scan q (c @ ''*'' @ post) = map Lit c @ italic_scan (if c = [] then q else Some (last c)) (''*'' @ post)" for q
    using assms(2) by (rule italic_scan_starless)
  have 3: "italic_scan q (CHR ''*'' # post) = Lit (CHR ''*'') # italic_scan (Some (CHR ''*'')) post" for q
    using italic_body_starless [OF assms(4)] by (rule italic_scan_unclosed)
  have "italic_scan None (pre @ ''*'' @ c @ ''*'' @ post) = map Lit (pre @ ''*'' @ c @ ''*'' @ post)"
    using italic_scan_starless [OF assms(3)] 1 2 3 italic_scan_starless_all [OF assms(4)] by simp
  then show ?thesis unfolding replace_italic_def by (simp only: render_lits)
qed

lemma replace_italic_double:
  assumes "CHR ''*'' \<notin> set c" "CHR ''*'' \<notin> set pre" "CHR ''*'' \<notin> set post"
  shows "replace_italic (pre @ ''**'' @ c @ ''**'' @ post) = pre @ ''**'' @ c @ ''**'' @ post"
proof -
  have 2: "italic_scan q (c @ ''**'' @ post) = map Lit c @ italic_scan (if c = [] then q else Some (last c)) (''**'' @ post)" for q
    using assms(1) by (rule italic_scan_starless)
  have "italic_scan None (pre @ ''**'' @ c @ ''**'' @ post) = map Lit (pre @ ''**'' @ c @ ''**'' @ post)"
    using italic_scan_starless [OF assms(2)] 2 italic_scan_double italic_scan_starless_all [OF assms(3)] by simp
  then show ?thesis unfolding replace_italic_def by (simp only: render_lits)
qed

subsection \<open>The inline code pass\<close>

lemma code_scan_tickless:
  "backtick \<notin> set xs \<Longrightarrow> code_scan (xs @ ys) = map Lit xs @ code_scan ys"
  by (induction xs) auto

lemma replace_code_tickless: "backtick \<notin> set t \<Longrightarrow> replace_code t = t"
proof -
  assume "backtick \<notin> set t"
  then have "code_scan t = map Lit t"
    using code_scan_tickless [of t "[]"] by simp
  then show ?thesis unfolding replace_code_def by (simp only: render_lits)
qed

lemma takeWhile_tickless:
  "backtick \<notin> set c \<Longrightarrow> takeWhile (\<lambda>x. x \<noteq> backtick) (c @ backtick # post) = c"
  by (induction c) auto

lemma code_body_closed:
  "c \<noteq> [] \<Longrightarrow> backtick \<notin> set c \<Longrightarrow> code_body (c @ backtick # post) = Some c"
  by (simp add: code_body_def Let_def takeWhile_tickless)

lemma code_scan_pair:
  assumes "c \<noteq> []" "backtick \<notin> set c"
  shows "code_scan (backtick # c @ backtick # post) = Span c # code_scan post"
proof -
  have "code_scan (backtick # c @ backtick # post) =
      Span c # code_scan (drop (length c + 1) (c @ backtick # post))"
    by (simp add: code_body_closed [OF assms])
  then show ?thesis by simp
qed

lemma replace_code_pair:
  assumes "c \<noteq> []" "backtick \<notin> set c" "backtick \<notin> set pre"
  shows "replace_code (pre @ [backtick] @ c @ [backtick] @ post) =
           pre @ code_open @ c @ ''</code>'' @ replace_code post"
proof -
  have "code_scan (pre @ [backtick] @ c @ [backtick] @ post) = map Lit pre @ Span c # code_scan post"
    using code_scan_tickless [OF assms(3)] code_scan_pair [OF assms(1,2)] by simp
  then have "replace_code (pre @ [backtick] @ c @ [backtick] @ post) =
      concat (map (render code_open ''</code>'') (map Lit pre)) @ code_open @ c @ ''</code>'' @ replace_code post"
    by (simp add: replace_code_def)
  then show ?thesis by (simp only: render_lits)
qed

section \<open>The claims\<close>

lemma typed_fields:
  "code (typed c) = c"
  "language (typed c) = ''javascript''"
  "loading (typed c) = False"
  "loadingMode (typed c) = None"
  "result (typed c) = Some JNull"
  "resultMode (typed c) = Some JNull"
  "error (typed c) = None"
  by (simp_all add: typed_def initial_state_def)

subsection \<open>Request orchestrator\<close>

text \<open>
  C1, as stated, fails: the user gets a review of \<open>x=1\<close>, replaces the code by white
  space and presses an action button. The run is rejected, the message is set, and the
  earlier result stays: \<open>result\<close> and \<open>error\<close> are both non-null.
\<close>

theorem result_and_error_both_set:
  "\<not> exclusive (run_events None
       [SetCode ''x=1'', Action ''review'' ok_review, SetCode blank_code, Action ''fix'' ok_review])"
  by (simp add: run_events_def initial_state_def handleAction_def try_block_def ok_review_def
      trim_x trim_blank exclusive_def nullish_def)

text \<open>
  C1, amended: in every reachable state \<open>result\<close> and \<open>error\<close> are both non-null only
  when \<open>error\<close> is the fixed message of a run rejected for empty code. After every
  accepted run and after clear at most one of them is non-null; a rejected run sets the
  message and keeps \<open>result\<close> as it is.
\<close>

theorem result_error_exclusive_unless_rejected:
  "(exclusive (run_events env evs) \<or> error (run_events env evs) = Some ''Please enter some code'') \<and>
   (trim (code s) \<noteq> [] \<longrightarrow> exclusive (fst (handleAction env service mode s))) \<and>
   exclusive (handleClear s) \<and>
   (trim (code r) = [] \<longrightarrow>
      result (fst (handleAction env service mode r)) = result r \<and>
      error (fst (handleAction env service mode r)) = Some ''Please enter some code'')"
  using run_events_invariant handleAction_exclusive
  by (simp add: handleAction_rejected exclusive_def handleClear_def nullish_def)

text \<open>
  C1, the amended statement at work: an accepted review of \<open>x=1\<close>, and a run on blank
  code that keeps the result it finds.
\<close>

theorem result_error_exclusive_unless_rejected_witness:
  "trim (code (typed ''x=1'')) \<noteq> [] \<and>
   exclusive (fst (handleAction None (\<lambda>q. ok_review) ''review'' (typed ''x=1''))) \<and>
   trim (code ((typed blank_code)\<lparr>result := Some (JStr ''kept'')\<rparr>)) = [] \<and>
   result (fst (handleAction None (\<lambda>q. ok_review) ''review''
       ((typed blank_code)\<lparr>result := Some (JStr ''kept'')\<rparr>))) = Some (JStr ''kept'')"
  using result_error_exclusive_unless_rejected [where s = "typed ''x=1''"
      and r = "(typed blank_code)\<lparr>result := Some (JStr ''kept'')\<rparr>"
      and env = None and service = "\<lambda>q. ok_review" and mode = "''review''" and evs = "[]"]
  by (simp add: trim_x trim_blank typed_fields)

text \<open>
  C2 fails on the code: the body is parsed before the status is looked at, so for a
  response that is not ok and whose body is no JSON the error of the parser is caught and
  \<open>error\<close> is its message, whatever it is, not the fallback \<open>Failed to process code\<close>.
  \<open>result\<close> is null, as the claim says.
\<close>

theorem unparseable_body_error_message:
  "error (fst (handleAction env (\<lambda>q. Response False (BodyError msg)) mode (typed ''x=1''))) = Some msg \<and>
   result (fst (handleAction env (\<lambda>q. Response False (BodyError msg)) mode (typed ''x=1''))) = Some JNull"
  by (simp add: handleAction_def try_block_def trim_x typed_fields)

text \<open>
  C3, as stated, fails: asked for a review, the service answers with the mode \<open>fix\<close>, and
  \<open>resultMode\<close> is \<open>fix\<close>; it answers with no mode, and \<open>resultMode\<close> is undefined beside a
  result that is set.
\<close>

theorem resultMode_differs_from_request:
  "\<not> nullish (result (fst (handleAction None (\<lambda>q. fix_reply) ''review'' (typed ''x=1'')))) \<and>
   resultMode (fst (handleAction None (\<lambda>q. fix_reply) ''review'' (typed ''x=1''))) = Some (JStr ''fix'') \<and>
   \<not> nullish (result (fst (handleAction None (\<lambda>q. no_mode_reply) ''review'' (typed ''x=1'')))) \<and>
   nullish (resultMode (fst (handleAction None (\<lambda>q. no_mode_reply) ''review'' (typed ''x=1''))))"
  by (simp add: handleAction_def try_block_def fix_reply_def no_mode_reply_def trim_x nullish_def
      typed_fields)

text \<open>
  C3, amended: whenever \<open>result\<close> is non-null at the end of an accepted run, the response
  was ok with a body whose \<open>success\<close> is truthy, and \<open>resultMode\<close> is the \<open>mode\<close> field of
  that body (undefined when the body has none), not the mode of the request.
\<close>

theorem resultMode_is_body_mode:
  assumes "trim (code s) \<noteq> []"
    and "\<not> nullish (result (fst (handleAction env service mode s)))"
  shows "\<exists>kvs. service (review_request env mode s) = Response True (Parsed (JObj kvs)) \<and>
           truthy (map_of kvs ''success'') \<and>
           resultMode (fst (handleAction env service mode s)) = map_of kvs ''mode''"
  using handleAction_accepted [OF assms(1), of env service mode] assms(2)
  by (auto simp: nullish_def)

text \<open>C3, the amended statement at work on the reply that carries the mode \<open>fix\<close>.\<close>

theorem resultMode_is_body_mode_witness:
  "trim (code (typed ''x=1'')) \<noteq> [] \<and>
   \<not> nullish (result (fst (handleAction None (\<lambda>q. fix_reply) ''review'' (typed ''x=1'')))) \<and>
   (\<exists>kvs. fix_reply = Response True (Parsed (JObj kvs)) \<and>
           truthy (map_of kvs ''success'') \<and>
           resultMode (fst (handleAction None (\<lambda>q. fix_reply) ''review'' (typed ''x=1''))) =
             map_of kvs ''mode'')"
proof -
  have a: "trim (code (typed ''x=1'')) \<noteq> []"
    by (simp add: trim_x typed_fields)
  have b: "\<not> nullish (result (fst (handleAction None (\<lambda>q. fix_reply) ''review'' (typed ''x=1''))))"
    by (simp add: handleAction_def try_block_def fix_reply_def trim_x nullish_def typed_fields)
  from resultMode_is_body_mode [OF a b] a b show ?thesis by simp
qed

text \<open>
  C4, as stated, fails: a review reply whose \<open>data\<close> has neither \<open>summary\<close> nor \<open>rating\<close>
  becomes the result, and no error is set.
\<close>

theorem missing_field_becomes_result:
  "\<not> nullish (result (fst (handleAction None (\<lambda>q. empty_data_reply) ''review'' (typed ''x=1'')))) \<and>
   error (fst (handleAction None (\<lambda>q. empty_data_reply) ''review'' (typed ''x=1''))) = None"
  by (simp add: handleAction_def try_block_def empty_data_reply_def trim_x nullish_def typed_fields)

text \<open>
  C4, amended: for every ok response whose body is an object with a truthy \<open>success\<close>,
  the run stores the \<open>data\<close> field as it came, whatever fields it has or lacks, and sets
  no error.
\<close>

theorem success_data_stored_unvalidated:
  assumes "trim (code s) \<noteq> []"
    and "service (review_request env mode s) = Response True (Parsed (JObj kvs))"
    and "truthy (map_of kvs ''success'')"
  shows "result (fst (handleAction env service mode s)) = map_of kvs ''data'' \<and>
         error (fst (handleAction env service mode s)) = None"
  using assms by (simp add: handleAction_def Let_def try_block_success)

text \<open>C4, the amended statement at work on the review reply with empty \<open>data\<close>.\<close>

theorem success_data_stored_unvalidated_witness:
  "trim (code (typed ''x=1'')) \<noteq> [] \<and>
   result (fst (handleAction None (\<lambda>q. empty_data_reply) ''review'' (typed ''x=1''))) = Some (JObj []) \<and>
   error (fst (handleAction None (\<lambda>q. empty_data_reply) ''review'' (typed ''x=1''))) = None"
proof -
  have a: "trim (code (typed ''x=1'')) \<noteq> []"
    by (simp add: trim_x typed_fields)
  have b: "(\<lambda>q. empty_data_reply) (review_request None ''review'' (typed ''x=1'')) =
      Response True (Parsed (JObj [(''success'', JBool True), (''mode'', JStr ''review''), (''data'', JObj [])]))"
    by (simp add: empty_data_reply_def)
  have c: "truthy (map_of [(''success'', JBool True), (''mode'', JStr ''review''), (''data'', JObj [])] ''success'')"
    by simp
  from success_data_stored_unvalidated [OF a b c] a show ?thesis by simp
qed

text \<open>
  C5: when the code is empty after trimming, the run sends no request, sets \<open>error\<close> to
  \<open>Please enter some code\<close> and changes nothing else, so \<open>loading\<close> and \<open>loadingMode\<close>
  are what they were.
\<close>

theorem empty_code_rejected:
  "trim (code s) = [] \<Longrightarrow>
     handleAction env service mode s = (s\<lparr>error := Some ''Please enter some code''\<rparr>, []) \<and>
     snd (handleAction env service mode s) = [] \<and>
     error (fst (handleAction env service mode s)) = Some ''Please enter some code'' \<and>
     loading (fst (handleAction env service mode s)) = loading s \<and>
     loadingMode (fst (handleAction env service mode s)) = loadingMode s"
  by (simp add: handleAction_rejected)

text \<open>C5 on blank code typed into the idle component: no request, and \<open>loading\<close> stays false.\<close>

theorem empty_code_rejected_witness:
  "trim (code (typed blank_code)) = [] \<and>
   snd (handleAction None (\<lambda>q. ok_review) ''review'' (typed blank_code)) = [] \<and>
   error (fst (handleAction None (\<lambda>q. ok_review) ''review'' (typed blank_code))) =
     Some ''Please enter some code'' \<and>
   loading (fst (handleAction None (\<lambda>q. ok_review) ''review'' (typed blank_code))) = False \<and>
   loadingMode (fst (handleAction None (\<lambda>q. ok_review) ''review'' (typed blank_code))) = None"
  using empty_code_rejected [where s = "typed blank_code"
      and env = None and service = "\<lambda>q. ok_review" and mode = "''review''"]
  by (simp add: trim_blank typed_fields)

text \<open>
  C6: an accepted run sends its one request and, whatever the exchange ends with (a
  rejected \<open>fetch\<close>, a body that does not parse, a status that is not ok, a failure
  envelope, a success), ends with \<open>loading\<close> false and \<open>loadingMode\<close> null.
\<close>

theorem accepted_run_releases_loading:
  "trim (code s) \<noteq> [] \<Longrightarrow>
     loading (fst (handleAction env service mode s)) = False \<and>
     loadingMode (fst (handleAction env service mode s)) = None \<and>
     snd (handleAction env service mode s) = [review_request env mode s]"
  using handleAction_accepted handleAction_sent by simp

text \<open>C6 on a run whose \<open>fetch\<close> is rejected.\<close>

theorem accepted_run_releases_loading_witness:
  "trim (code (typed ''x=1'')) \<noteq> [] \<and>
   loading (fst (handleAction None (\<lambda>q. Rejected ''Failed to fetch'') ''review'' (typed ''x=1''))) = False \<and>
   loadingMode (fst (handleAction None (\<lambda>q. Rejected ''Failed to fetch'') ''review'' (typed ''x=1''))) = None"
  using accepted_run_releases_loading [where s = "typed ''x=1''"
      and env = None and service = "\<lambda>q. Rejected ''Failed to fetch''" and mode = "''review''"]
  by (simp add: trim_x typed_fields)

subsection \<open>Visual encoder\<close>

text \<open>
  C7, as stated, fails: a string that only contains \<open>o(n)\<close>, and is longer than it, is
  light green through the \<open>o(n)\<close> rule.
\<close>

theorem getComplexityColor_substring_light_green:
  "getComplexityColor (Some ''O(n) on average'') = ''#8bc34a'' \<and>
   toLowerCase ''O(n) on average'' \<noteq> ''o(n)'' \<and>
   \<not> js_includes (toLowerCase ''O(n) on average'') ''o(log n)''"
  by code_simp

text \<open>
  C7, amended: \<open>getComplexityColor\<close> is total on strings and null and always gives one of
  six colours. Null and the empty string are gray; a string gets the colour of the first
  rule, in the order green, light green, yellow, orange, red, one of whose tokens occurs
  anywhere in its lower-case form, and gray when none does. The \<open>o(n)\<close> rule is such an
  occurrence test too.
\<close>

theorem getComplexityColor_first_match:
  "getComplexityColor None = ''#666'' \<and>
   getComplexityColor (Some s) =
     (if sublist ''o(1)'' (toLowerCase s) then ''#4caf50''
      else if sublist ''o(log n)'' (toLowerCase s) \<or> sublist ''o(n)'' (toLowerCase s) then ''#8bc34a''
      else if sublist ''o(n log n)'' (toLowerCase s) then ''#ffc107''
      else if sublist (''o(n'' @ [sup2] @ '')'') (toLowerCase s) \<or> sublist ''o(n^2)'' (toLowerCase s)
        then ''#ff9800''
      else if sublist ''o(2^n)'' (toLowerCase s) \<or> sublist ''o(n!)'' (toLowerCase s) then ''#f44336''
      else ''#666'') \<and>
   getComplexityColor c \<in> {''#4caf50'', ''#8bc34a'', ''#ffc107'', ''#ff9800'', ''#f44336'', ''#666''}"
proof -
  have a: "getComplexityColor None = ''#666''"
    by (simp add: getComplexityColor_def)
  have b: "getComplexityColor (Some s) =
     (if sublist ''o(1)'' (toLowerCase s) then ''#4caf50''
      else if sublist ''o(log n)'' (toLowerCase s) \<or> sublist ''o(n)'' (toLowerCase s) then ''#8bc34a''
      else if sublist ''o(n log n)'' (toLowerCase s) then ''#ffc107''
      else if sublist (''o(n'' @ [sup2] @ '')'') (toLowerCase s) \<or> sublist ''o(n^2)'' (toLowerCase s)
        then ''#ff9800''
      else if sublist ''o(2^n)'' (toLowerCase s) \<or> sublist ''o(n!)'' (toLowerCase s) then ''#f44336''
      else ''#666'')"
  proof (cases "s = []")
    case True
    then show ?thesis by (simp add: getComplexityColor_def toLowerCase_def)
  next
    case False
    then show ?thesis by (simp add: getComplexityColor_def Let_def includes_sublist)
  qed
  have c: "getComplexityColor c \<in> {''#4caf50'', ''#8bc34a'', ''#ffc107'', ''#ff9800'', ''#f44336'', ''#666''}"
    by (cases c) (simp_all add: getComplexityColor_def Let_def)
  from a b c show ?thesis by blast
qed

text \<open>
  C8: \<open>getComplexityWidth\<close> gives 50% for null and, for a string, the width of the first
  class whose token occurs in its lower-case form: 10%, 20%, 30%, 50%, 70%, 90%, and 50%
  when none occurs. On the classes in their order the widths are 10, 20, 30, 50, 70, 90,
  which never decrease.
\<close>

theorem getComplexityWidth_table_monotone:
  "getComplexityWidth None = ''50%'' \<and>
   getComplexityWidth (Some s) =
     (if sublist ''o(1)'' (toLowerCase s) then ''10%''
      else if sublist ''o(log n)'' (toLowerCase s) then ''20%''
      else if sublist ''o(n)'' (toLowerCase s) then ''30%''
      else if sublist ''o(n log n)'' (toLowerCase s) then ''50%''
      else if sublist (''o(n'' @ [sup2] @ '')'') (toLowerCase s) \<or> sublist ''o(n^2)'' (toLowerCase s)
        then ''70%''
      else if sublist ''o(2^n)'' (toLowerCase s) \<or> sublist ''o(n!)'' (toLowerCase s) then ''90%''
      else ''50%'') \<and>
   map (\<lambda>c. getComplexityWidth (Some c)) (complexity_classes @ [''O(n!)'', ''O(n^2)'']) =
     [''10%'', ''20%'', ''30%'', ''50%'', ''70%'', ''90%'', ''90%'', ''70%''] \<and>
   map (\<lambda>c. percent_value (getComplexityWidth (Some c))) complexity_classes = [10, 20, 30, 50, 70, 90] \<and>
   sorted (map (\<lambda>c. percent_value (getComplexityWidth (Some c))) complexity_classes)"
proof -
  have a: "getComplexityWidth None = ''50%''"
    by (simp add: getComplexityWidth_def)
  have b: "getComplexityWidth (Some s) =
     (if sublist ''o(1)'' (toLowerCase s) then ''10%''
      else if sublist ''o(log n)'' (toLowerCase s) then ''20%''
      else if sublist ''o(n)'' (toLowerCase s) then ''30%''
      else if sublist ''o(n log n)'' (toLowerCase s) then ''50%''
      else if sublist (''o(n'' @ [sup2] @ '')'') (toLowerCase s) \<or> sublist ''o(n^2)'' (toLowerCase s)
        then ''70%''
      else if sublist ''o(2^n)'' (toLowerCase s) \<or> sublist ''o(n!)'' (toLowerCase s) then ''90%''
      else ''50%'')"
  proof (cases "s = []")
    case True
    then show ?thesis by (simp add: getComplexityWidth_def toLowerCase_def)
  next
    case False
    then show ?thesis by (simp add: getComplexityWidth_def Let_def includes_sublist)
  qed
  have c: "map (\<lambda>c. getComplexityWidth (Some c)) (complexity_classes @ [''O(n!)'', ''O(n^2)'']) =
     [''10%'', ''20%'', ''30%'', ''50%'', ''70%'', ''90%'', ''90%'', ''70%'']"
    by code_simp
  have d: "map (\<lambda>c. percent_value (getComplexityWidth (Some c))) complexity_classes = [10, 20, 30, 50, 70, 90]"
    by code_simp
  have e: "sorted (map (\<lambda>c. percent_value (getComplexityWidth (Some c))) complexity_classes)"
    unfolding d by simp
  from a b c d e show ?thesis by blast
qed

subsection \<open>Text formatter\<close>

text \<open>
  C9: the text with a bold, an italic and a code span formats to one paragraph holding
  the three spans in that order; the text with a blank line between \<open>p1\<close> and \<open>p2\<close>
  formats to two paragraphs; the empty string and null format to the empty string.
\<close>

theorem formatExplanation_examples:
  "explanation_paragraphs (''**a** and *b* and '' @ [backtick] @ ''c'' @ [backtick]) =
     [''<p><strong>a</strong> and <em>b</em> and <code class='' @ [CHR 0x22] @ ''inline-code'' @
        [CHR 0x22] @ ''>c</code></p>''] \<and>
   formatExplanation (Some (''**a** and *b* and '' @ [backtick] @ ''c'' @ [backtick])) =
     ''<p><strong>a</strong> and <em>b</em> and <code class='' @ [CHR 0x22] @ ''inline-code'' @
        [CHR 0x22] @ ''>c</code></p>'' \<and>
   explanation_paragraphs (''p1'' @ [nl, nl] @ ''p2'') = [''<p>p1</p>'', ''<p>p2</p>''] \<and>
   formatExplanation (Some (''p1'' @ [nl, nl] @ ''p2'')) = ''<p>p1</p><p>p2</p>'' \<and>
   formatExplanation (Some []) = [] \<and>
   formatExplanation None = []"
  by code_simp

text \<open>
  C10, as stated, fails for inline code: a backtick pair with a line feed between the
  backticks is converted to a code span.
\<close>

theorem inline_code_spans_line_break:
  "nl \<in> set (''a'' @ [nl] @ ''b'') \<and>
   replace_code ([backtick] @ ''a'' @ [nl] @ ''b'' @ [backtick]) =
     ''<code class='' @ [CHR 0x22] @ ''inline-code'' @ [CHR 0x22] @ ''>a'' @ [nl] @ ''b</code>'' \<and>
   formatExplanation (Some ([backtick] @ ''a'' @ [nl] @ ''b'' @ [backtick])) =
     ''<p><code class='' @ [CHR 0x22] @ ''inline-code'' @ [CHR 0x22] @ ''>a<br>b</code></p>''"
  by code_simp

text \<open>
  C10, amended: no span of the bold pass or of the italic pass holds a line feed, and a
  \<open>**\<close> pair or a \<open>*\<close> pair around a text with a line feed (no other asterisk and no
  backtick in the text around) comes out of the three span passes as it went in. A
  backtick pair around a non-empty text without backticks is converted to a code span,
  line feeds in it or not.
\<close>

theorem line_break_spans:
  "(Span m \<in> set (bold_scan t) \<longrightarrow> nl \<notin> set m) \<and>
   (Span n \<in> set (italic_scan p u) \<longrightarrow> nl \<notin> set n) \<and>
   (nl \<in> set c \<and> CHR ''*'' \<notin> set (pre @ c @ post) \<and> backtick \<notin> set (pre @ c @ post) \<longrightarrow>
      replace_code (replace_italic (replace_bold (pre @ ''**'' @ c @ ''**'' @ post))) =
        pre @ ''**'' @ c @ ''**'' @ post \<and>
      replace_code (replace_italic (replace_bold (pre @ ''*'' @ c @ ''*'' @ post))) =
        pre @ ''*'' @ c @ ''*'' @ post) \<and>
   (d \<noteq> [] \<and> backtick \<notin> set (l @ d) \<longrightarrow>
      replace_code (l @ [backtick] @ d @ [backtick] @ r) =
        l @ code_open @ d @ ''</code>'' @ replace_code r)"
proof (intro conjI impI)
  assume "Span m \<in> set (bold_scan t)"
  then show "nl \<notin> set m" using bold_scan_span bold_body_no_break by blast
next
  assume "Span n \<in> set (italic_scan p u)"
  then show "nl \<notin> set n" using italic_scan_span italic_body_no_break by blast
next
  assume a: "nl \<in> set c \<and> CHR ''*'' \<notin> set (pre @ c @ post) \<and> backtick \<notin> set (pre @ c @ post)"
  then have s: "nl \<in> set c" "CHR ''*'' \<notin> set c" "CHR ''*'' \<notin> set pre" "CHR ''*'' \<notin> set post"
    by auto
  have "backtick \<notin> set (pre @ ''**'' @ c @ ''**'' @ post)"
    using a by (auto simp: backtick_def)
  from replace_code_tickless [OF this] show "replace_code (replace_italic (replace_bold (pre @ ''**'' @ c @ ''**'' @ post))) =
        pre @ ''**'' @ c @ ''**'' @ post"
    by (simp only: replace_bold_pair [OF s] replace_italic_double [OF s(2,3,4)])
next
  assume a: "nl \<in> set c \<and> CHR ''*'' \<notin> set (pre @ c @ post) \<and> backtick \<notin> set (pre @ c @ post)"
  then have s: "nl \<in> set c" "CHR ''*'' \<notin> set c" "CHR ''*'' \<notin> set pre" "CHR ''*'' \<notin> set post"
    by auto
  from s(1) have c: "c \<noteq> []" by auto
  have "backtick \<notin> set (pre @ ''*'' @ c @ ''*'' @ post)"
    using a by (auto simp: backtick_def)
  from replace_code_tickless [OF this] show "replace_code (replace_italic (replace_bold (pre @ ''*'' @ c @ ''*'' @ post))) =
        pre @ ''*'' @ c @ ''*'' @ post"
    by (simp only: replace_bold_single [OF c s(2,3,4)] replace_italic_pair [OF s])
next
  assume "d \<noteq> [] \<and> backtick \<notin> set (l @ d)"
  then have "d \<noteq> []" "backtick \<notin> set d" "backtick \<notin> set l" by auto
  then show "replace_code (l @ [backtick] @ d @ [backtick] @ r) =
        l @ code_open @ d @ ''</code>'' @ replace_code r"
    by (rule replace_code_pair)
qed

text \<open>C10, the amended statement at work on spans and on pairs around \<open>a\<close>, a line feed, \<open>b\<close>.\<close>

theorem line_break_spans_witness:
  "Span ''a'' \<in> set (bold_scan ''x **a** y'') \<and>
   Span ''b'' \<in> set (italic_scan None ''x *b* y'') \<and>
   nl \<in> set (''a'' @ [nl] @ ''b'') \<and>
   replace_code (replace_italic (replace_bold (''x '' @ ''**'' @ (''a'' @ [nl] @ ''b'') @ ''**'' @ '' y''))) =
     ''x '' @ ''**'' @ (''a'' @ [nl] @ ''b'') @ ''**'' @ '' y'' \<and>
   replace_code (replace_italic (replace_bold (''x '' @ ''*'' @ (''a'' @ [nl] @ ''b'') @ ''*'' @ '' y''))) =
     ''x '' @ ''*'' @ (''a'' @ [nl] @ ''b'') @ ''*'' @ '' y'' \<and>
   replace_code (''x '' @ [backtick] @ (''a'' @ [nl] @ ''b'') @ [backtick] @ '' y'') =
     ''x '' @ code_open @ (''a'' @ [nl] @ ''b'') @ ''</code>'' @ '' y''"
proof -
  have h1: "Span ''a'' \<in> set (bold_scan ''x **a** y'')"
    by code_simp
  have h2: "Span ''b'' \<in> set (italic_scan None ''x *b* y'')"
    by code_simp
  have h3: "nl \<in> set (''a'' @ [nl] @ ''b'') \<and> CHR ''*'' \<notin> set (''x '' @ (''a'' @ [nl] @ ''b'') @ '' y'') \<and>
      backtick \<notin> set (''x '' @ (''a'' @ [nl] @ ''b'') @ '' y'')"
    by code_simp
  have h4: "''a'' @ [nl] @ ''b'' \<noteq> [] \<and> backtick \<notin> set (''x '' @ (''a'' @ [nl] @ ''b''))"
    by code_simp
  have h5: "replace_code '' y'' = '' y''"
    by code_simp
  show ?thesis
    using line_break_spans [where m = "''a''" and t = "''x **a** y''" and n = "''b''" and p = None
        and u = "''x *b* y''" and c = "''a'' @ [nl] @ ''b''" and pre = "''x ''" and post = "'' y''"
        and d = "''a'' @ [nl] @ ''b''" and l = "''x ''" and r = "'' y''"]
      h1 h2 h3 h4 h5
    by simp
qed


end
